theory Spec2Isabelle
  imports Main
begin

section \<open>Strings of the form component\<close>

text \<open>
  The component \<^verbatim>\<open>components/email-sender-form.tsx\<close> works on JavaScript strings,
  which are sequences of UTF-16 code units. A HOL \<^typ>\<open>char\<close> stands here for the code
  unit with the same number, so the model covers every text whose code units are below
  256 (ASCII and the Latin-1 supplement). On that range \<^verbatim>\<open>trim\<close>, \<^verbatim>\<open>toLowerCase\<close>,
  \<^verbatim>\<open>split\<close>, \<^verbatim>\<open>join\<close>, \<^verbatim>\<open>endsWith\<close> and the class \<^verbatim>\<open>\s\<close> of regular expressions are
  the functions below, and their results stay in the range.
\<close>

definition LF :: char where
  "LF = CHR 0x0A"

text \<open>
  White space and line terminators of ECMAScript below 256: TAB, LF, VT, FF, CR, SP and
  NBSP. Both \<^verbatim>\<open>String.prototype.trim\<close> and \<^verbatim>\<open>\s\<close> use this set.
\<close>

definition isWhiteSpace :: "char \<Rightarrow> bool" where
  "isWhiteSpace c = ((of_char c :: nat) \<in> {9, 10, 11, 12, 13, 32, 160})"

definition isUpper :: "char \<Rightarrow> bool" where
  "isUpper c = (let n = (of_char c :: nat) in
     (65 \<le> n \<and> n \<le> 90) \<or> (192 \<le> n \<and> n \<le> 222 \<and> n \<noteq> 215))"

text \<open>
  Lower-casing of one code unit: A-Z, and the Latin-1 capitals U+00C0 to U+00DE without
  the multiplication sign U+00D7, move up by 32; everything else is unchanged.
\<close>

definition lowerChar :: "char \<Rightarrow> char" where
  "lowerChar c = (if isUpper c then char_of ((of_char c :: nat) + 32) else c)"

definition toLowerCase :: "string \<Rightarrow> string" where
  "toLowerCase s = map lowerChar s"

definition trim :: "string \<Rightarrow> string" where
  "trim s = rev (dropWhile isWhiteSpace (rev (dropWhile isWhiteSpace s)))"

text \<open>\<^verbatim>\<open>s.split(sep)\<close> for a separator of one code unit: the empty text gives one empty piece.\<close>

fun split :: "char \<Rightarrow> string \<Rightarrow> string list" where
  "split sep [] = [[]]"
| "split sep (c # cs) =
     (if c = sep then [] # split sep cs
      else (case split sep cs of
              [] \<Rightarrow> [[c]]
            | piece # pieces \<Rightarrow> (c # piece) # pieces))"

text \<open>\<^verbatim>\<open>xs.join(sep)\<close>: the empty array gives the empty text.\<close>

fun join :: "string \<Rightarrow> string list \<Rightarrow> string" where
  "join sep [] = []"
| "join sep [x] = x"
| "join sep (x # y # ys) = x @ sep @ join sep (y # ys)"

definition endsWith :: "string \<Rightarrow> string \<Rightarrow> bool" where
  "endsWith s suf = (length suf \<le> length s \<and> drop (length s - length suf) s = suf)"

text \<open>
  A JavaScript \<^verbatim>\<open>Set\<close> of strings keeps its elements in insertion order and ignores the
  insertion of an element it already holds; \<^verbatim>\<open>Array.from\<close> reads them in that order.
  The set is the list of its elements in insertion order.
\<close>

definition Set_add :: "'a list \<Rightarrow> 'a \<Rightarrow> 'a list" where
  "Set_add s x = (if x \<in> set s then s else s @ [x])"

definition new_Set :: "'a list \<Rightarrow> 'a list" where
  "new_Set xs = foldl Set_add [] xs"

text \<open>Decimal digits of a number, as a template literal prints it.\<close>

fun string_of_nat :: "nat \<Rightarrow> string" where
  "string_of_nat n =
     (if n < 10 then [''0123456789'' ! n]
      else string_of_nat (n div 10) @ [''0123456789'' ! (n mod 10)])"

section \<open>Recipient normalisation (handleSubmit, lines 84 to 93)\<close>

definition recipientList :: "string \<Rightarrow> string list" where
  "recipientList recipients =
     filter (\<lambda>email. length email > 0) (map (\<lambda>email. trim email) (split LF recipients))"

definition uniqueRecipients :: "string \<Rightarrow> string list" where
  "uniqueRecipients recipients =
     new_Set (map (\<lambda>email. toLowerCase email) (recipientList recipients))"

definition removedCount :: "string \<Rightarrow> nat" where
  "removedCount recipients =
     length (recipientList recipients) - length (uniqueRecipients recipients)"

text \<open>
  The normaliser as the specification words it: split on newlines, trim each line, drop
  the empty lines, lower-case each remaining line, keep the first occurrence of each
  distinct address in first-seen order.
\<close>

primrec first_occurrences :: "'a list \<Rightarrow> 'a list" where
  "first_occurrences [] = []"
| "first_occurrences (x # xs) = x # removeAll x (first_occurrences xs)"

definition spec_nonempty_lines :: "string \<Rightarrow> string list" where
  "spec_nonempty_lines raw = filter (\<lambda>l. l \<noteq> []) (map trim (split LF raw))"

definition spec_normalize :: "string \<Rightarrow> string list" where
  "spec_normalize raw = first_occurrences (map toLowerCase (spec_nonempty_lines raw))"

definition spec_duplicate_count :: "string \<Rightarrow> nat" where
  "spec_duplicate_count raw =
     length (spec_nonempty_lines raw) - length (spec_normalize raw)"

section \<open>Email validator (validateEmail, lines 36 to 38)\<close>

text \<open>
  The regular expression \<^verbatim>\<open>/^[^\s@]+@[^\s@]+\.[^\s@]+$/\<close> is a sequence of atoms, each
  taken once or with \<^verbatim>\<open>+\<close>, between the anchors \<^verbatim>\<open>^\<close> and \<^verbatim>\<open>$\<close>. It has no flags, so
  \<^verbatim>\<open>$\<close> is the end of the input only, and \<^verbatim>\<open>test\<close> keeps no position between calls.
  The matcher is the backtracking one of the language: a greedy \<^verbatim>\<open>+\<close> first tries one
  more repetition, then the rest of the pattern.
\<close>

datatype class_item = WhiteSpaceClass | CharItem char

datatype atom = Literal char | NegatedClass "class_item list"

datatype quantifier = Once | OneOrMore

type_synonym pattern = "(atom \<times> quantifier) list"

fun class_item_matches :: "class_item \<Rightarrow> char \<Rightarrow> bool" where
  "class_item_matches WhiteSpaceClass c = isWhiteSpace c"
| "class_item_matches (CharItem d) c = (c = d)"

fun atom_matches :: "atom \<Rightarrow> char \<Rightarrow> bool" where
  "atom_matches (Literal d) c = (c = d)"
| "atom_matches (NegatedClass items) c = (\<not> list_ex (\<lambda>i. class_item_matches i c) items)"

fun matches_anchored :: "pattern \<Rightarrow> string \<Rightarrow> bool" where
  "matches_anchored [] s = (s = [])"
| "matches_anchored ((a, q) # p) [] = False"
| "matches_anchored ((a, Once) # p) (c # cs) = (atom_matches a c \<and> matches_anchored p cs)"
| "matches_anchored ((a, OneOrMore) # p) (c # cs) =
     (atom_matches a c \<and> (matches_anchored ((a, OneOrMore) # p) cs \<or> matches_anchored p cs))"

definition email_regex :: pattern where
  "email_regex =
     [(NegatedClass [WhiteSpaceClass, CharItem CHR ''@''], OneOrMore),
      (Literal CHR ''@'', Once),
      (NegatedClass [WhiteSpaceClass, CharItem CHR ''@''], OneOrMore),
      (Literal CHR ''.'', Once),
      (NegatedClass [WhiteSpaceClass, CharItem CHR ''@''], OneOrMore)]"

definition validateEmail :: "string \<Rightarrow> bool" where
  "validateEmail email = matches_anchored email_regex (trim email)"

text \<open>
  The shape as the specification words it: a local part, a literal at sign, a domain, a
  literal dot and a last part, the three parts non-empty and free of white space and of
  the at sign.
\<close>

definition spec_plain_char :: "char \<Rightarrow> bool" where
  "spec_plain_char c = (\<not> isWhiteSpace c \<and> c \<noteq> CHR ''@'')"

definition spec_plain_part :: "string \<Rightarrow> bool" where
  "spec_plain_part p = (p \<noteq> [] \<and> list_all spec_plain_char p)"

definition spec_email_shape :: "string \<Rightarrow> bool" where
  "spec_email_shape t =
     (\<exists>local_part domain_part last_part.
        t = local_part @ ''@'' @ domain_part @ ''.'' @ last_part
        \<and> spec_plain_part local_part \<and> spec_plain_part domain_part \<and> spec_plain_part last_part)"

section \<open>State of the form and the two endpoints\<close>

record EmailResult =
  email :: string
  success :: bool
  message :: string

record EmailResponse =
  total :: int
  successful :: int
  failed :: int
  result_list :: "EmailResult list"

text \<open>The eight state variables of the component.\<close>

record form_state =
  subject :: string
  body :: string
  recipients :: string
  loading :: bool
  results :: "EmailResponse option"
  error :: string
  uploading :: bool
  duplicateInfo :: string

text \<open>The state at the first render (lines 27 to 34).\<close>

definition initial_state :: form_state where
  "initial_state =
     \<lparr>subject = [], body = [], recipients = [], loading = False, results = None,
      error = [], uploading = False, duplicateInfo = []\<rparr>"

text \<open>
  What an awaited promise does: it rejects with a thrown value, which is an \<^verbatim>\<open>Error\<close>
  carrying a message or something else, or it resolves.
\<close>

datatype thrown = ErrorObject string | OtherValue

datatype 'a awaited = Rejected thrown | Resolved 'a

text \<open>\<^verbatim>\<open>err instanceof Error ? err.message : "An error occurred"\<close>\<close>

fun caught_message :: "thrown \<Rightarrow> string" where
  "caught_message (ErrorObject msg) = msg"
| "caught_message OtherValue = ''An error occurred''"

text \<open>
  A response of an endpoint is \<^verbatim>\<open>ok\<close> or not, and its \<^verbatim>\<open>json()\<close> is awaited in turn. The
  body of a response that is not ok is read for its \<^verbatim>\<open>detail\<close> only, which may be absent.
\<close>

datatype 'a response = Ok "'a awaited" | NotOk "string option awaited"

record send_request =
  request_subject :: string
  request_body :: string
  request_recipients :: "string list"

type_synonym send_endpoint = "send_request \<Rightarrow> EmailResponse response awaited"

text \<open>\<^verbatim>\<open>errorData.detail || fallback\<close>: an absent or empty detail gives the fallback.\<close>

fun detail_or :: "string option \<Rightarrow> string \<Rightarrow> string" where
  "detail_or None fallback = fallback"
| "detail_or (Some d) fallback = (if d = [] then fallback else d)"

section \<open>Submission (handleSubmit, lines 78 to 157)\<close>

text \<open>
  The \<^verbatim>\<open>try\<close> block of the handler, from the request to the end of \<^verbatim>\<open>catch\<close>: the state
  after it, given what the request did.
\<close>

fun send_outcome :: "form_state \<Rightarrow> EmailResponse response awaited \<Rightarrow> form_state" where
  "send_outcome st (Rejected err) = st\<lparr>error := caught_message err\<rparr>"
| "send_outcome st (Resolved (NotOk (Rejected err))) = st\<lparr>error := caught_message err\<rparr>"
| "send_outcome st (Resolved (NotOk (Resolved errorData))) =
     st\<lparr>error := detail_or errorData ''Failed to send emails''\<rparr>"
| "send_outcome st (Resolved (Ok (Rejected err))) = st\<lparr>error := caught_message err\<rparr>"
| "send_outcome st (Resolved (Ok (Resolved data))) =
     (let st' = st\<lparr>results := Some data\<rparr>
      in if successful data = total data
         then st'\<lparr>subject := [], body := [], recipients := []\<rparr>
         else st')"

text \<open>
  The handler returns the state after it and the requests it sent to the send endpoint,
  in order.
\<close>

definition handleSubmit :: "send_endpoint \<Rightarrow> form_state \<Rightarrow> form_state \<times> send_request list" where
  "handleSubmit fetch st =
     (let st0 = st\<lparr>error := [], results := None, duplicateInfo := []\<rparr>;
          recipientList' = recipientList (recipients st);
          uniqueRecipients' = uniqueRecipients (recipients st)
      in if length uniqueRecipients' = 0
         then (st0\<lparr>error := ''Please enter at least one recipient email address''\<rparr>, [])
         else
           let invalidEmails = filter (\<lambda>email. \<not> validateEmail email) uniqueRecipients'
           in if length invalidEmails > 0
              then (st0\<lparr>error := ''Invalid email addresses: '' @ join '', '' invalidEmails\<rparr>, [])
              else
                let st1 =
                      (if length recipientList' > length uniqueRecipients'
                       then st0\<lparr>duplicateInfo :=
                              string_of_nat (length recipientList' - length uniqueRecipients')
                              @ '' duplicate email address removed''\<rparr>
                       else st0\<lparr>duplicateInfo := []\<rparr>)
                in if trim (subject st) = []
                   then (st1\<lparr>error := ''Please enter a subject''\<rparr>, [])
                   else if trim (body st) = []
                   then (st1\<lparr>error := ''Please enter a message''\<rparr>, [])
                   else
                     let st2 = st1\<lparr>loading := True\<rparr>;
                         request = \<lparr>request_subject = subject st,
                                    request_body = body st,
                                    request_recipients = uniqueRecipients'\<rparr>;
                         st3 = send_outcome st2 (fetch request)
                     in (st3\<lparr>loading := False\<rparr>, [request]))"

section \<open>Spreadsheet upload (handleFileUpload, lines 40 to 76)\<close>

record File =
  name :: string
  content :: string

type_synonym upload_endpoint = "File \<Rightarrow> string list response awaited"

fun upload_outcome :: "form_state \<Rightarrow> string list response awaited \<Rightarrow> form_state" where
  "upload_outcome st (Rejected err) = st\<lparr>error := caught_message err\<rparr>"
| "upload_outcome st (Resolved (NotOk (Rejected err))) = st\<lparr>error := caught_message err\<rparr>"
| "upload_outcome st (Resolved (NotOk (Resolved errorData))) =
     st\<lparr>error := detail_or errorData ''Failed to upload Excel file''\<rparr>"
| "upload_outcome st (Resolved (Ok (Rejected err))) = st\<lparr>error := caught_message err\<rparr>"
| "upload_outcome st (Resolved (Ok (Resolved emails))) =
     st\<lparr>recipients := join [LF] emails, error := []\<rparr>"

text \<open>
  The handler gets the first selected file, if there is one, and returns the state after
  it and the files it sent to the upload endpoint.
\<close>

definition handleFileUpload :: "upload_endpoint \<Rightarrow> File option \<Rightarrow> form_state \<Rightarrow> form_state \<times> File list" where
  "handleFileUpload fetch selected st =
     (case selected of
        None \<Rightarrow> (st, [])
      | Some file \<Rightarrow>
          if \<not> endsWith (name file) ''.xlsx'' \<and> \<not> endsWith (name file) ''.xls''
          then (st\<lparr>error := ''Please upload an Excel file (.xlsx or .xls)''\<rparr>, [])
          else
            let st1 = st\<lparr>uploading := True, error := []\<rparr>;
                st2 = upload_outcome st1 (fetch file)
            in (st2\<lparr>uploading := False\<rparr>, [file]))"

section \<open>Send orchestrator\<close>

text \<open>
  Modelled from the spec: the send orchestrator behind the send endpoint
  (\<^verbatim>\<open>backend/main.py\<close>), which is not among the sources. For each recipient it invokes the
  delivery provider with the recipient, the subject and the body; each invocation
  succeeds or fails on its own; it collects one result per recipient in input order and
  computes total as the number of recipients, successful as the number of results with
  success, and failed as total minus successful.
\<close>

datatype delivery = Delivered | DeliveryFailed string

type_synonym delivery_provider = "string \<Rightarrow> string \<Rightarrow> string \<Rightarrow> delivery"

text \<open>
  Modelled from the spec: one invocation of the delivery provider, which is not among
  the sources, and the result made of it (the address, whether it succeeded, a message).
\<close>

definition send_one :: "delivery_provider \<Rightarrow> string \<Rightarrow> string \<Rightarrow> string \<Rightarrow> EmailResult" where
  "send_one provider subj html recipient =
     (case provider recipient subj html of
        Delivered \<Rightarrow>
          \<lparr>email = recipient, success = True, message = ''Email sent successfully''\<rparr>
      | DeliveryFailed why \<Rightarrow>
          \<lparr>email = recipient, success = False, message = ''Failed: '' @ why\<rparr>)"

text \<open>
  Modelled from the spec: the loop over the recipients, which is not among the sources.
  A failed delivery is a result like any other and the loop goes on.
\<close>

fun send_each :: "delivery_provider \<Rightarrow> string \<Rightarrow> string \<Rightarrow> string list \<Rightarrow> EmailResult list" where
  "send_each provider subj html [] = []"
| "send_each provider subj html (recipient # rest) =
     send_one provider subj html recipient # send_each provider subj html rest"

text \<open>
  Modelled from the spec: the report of the send endpoint, which is not among the
  sources: total, successful, failed and the results in input order.
\<close>

definition send_emails :: "delivery_provider \<Rightarrow> send_request \<Rightarrow> EmailResponse" where
  "send_emails provider request =
     (let rs = send_each provider (request_subject request) (request_body request)
                 (request_recipients request);
          n = int (length (request_recipients request));
          good = int (length (filter success rs))
      in \<lparr>total = n, successful = good, failed = n - good, result_list = rs\<rparr>)"

section \<open>Notions used in the statements\<close>

text \<open>
  The duplicate message of lines 107 to 112, as a function of the recipients text, and
  the request of lines 132 to 136, as a function of the state at the submission.
\<close>

definition duplicate_feedback :: "string \<Rightarrow> string" where
  "duplicate_feedback raw =
     (if length (recipientList raw) > length (uniqueRecipients raw)
      then string_of_nat (length (recipientList raw) - length (uniqueRecipients raw))
           @ '' duplicate email address removed''
      else [])"

definition request_of :: "form_state \<Rightarrow> send_request" where
  "request_of st = \<lparr>request_subject = subject st, request_body = body st,
     request_recipients = uniqueRecipients (recipients st)\<rparr>"

section \<open>Properties\<close>

declare string_of_nat.simps [simp del]

subsection \<open>The set of a submission keeps first occurrences\<close>

lemma first_occurrences_filter:
  "first_occurrences (filter P xs) = filter P (first_occurrences xs)"
proof (induction xs)
  case Nil
  show ?case by simp
next
  case (Cons x xs)
  have drop_x: "\<not> P x \<Longrightarrow> filter P (removeAll x ys) = filter P ys" for ys
    by (induction ys) auto
  have swap: "filter P (removeAll x ys) = removeAll x (filter P ys)" for ys
    by (induction ys) auto
  show ?case
  proof (cases "P x")
    case True
    then show ?thesis using Cons.IH by (simp add: swap)
  next
    case False
    then show ?thesis using Cons.IH by (simp add: drop_x)
  qed
qed

lemma set_first_occurrences [simp]: "set (first_occurrences xs) = set xs"
  by (induction xs) auto

lemma distinct_first_occurrences [simp]: "distinct (first_occurrences xs)"
  by (induction xs) (auto simp: distinct_removeAll)

lemma first_occurrences_distinct: "distinct xs \<Longrightarrow> first_occurrences xs = xs"
  by (induction xs) (auto simp: removeAll_id)

lemma foldl_Set_add:
  "foldl Set_add acc xs = acc @ first_occurrences (filter (\<lambda>x. x \<notin> set acc) xs)"
proof (induction xs arbitrary: acc)
  case Nil
  show ?case by simp
next
  case (Cons x xs)
  show ?case
  proof (cases "x \<in> set acc")
    case True
    then show ?thesis using Cons.IH [of acc] by (simp add: Set_add_def)
  next
    case False
    have "filter (\<lambda>y. y \<notin> set (acc @ [x])) xs = removeAll x (filter (\<lambda>y. y \<notin> set acc) xs)"
      by (induction xs) auto
    then have "first_occurrences (filter (\<lambda>y. y \<notin> set (acc @ [x])) xs)
        = removeAll x (first_occurrences (filter (\<lambda>y. y \<notin> set acc) xs))"
      by (simp add: removeAll_filter_not_eq first_occurrences_filter)
    then show ?thesis using False Cons.IH [of "acc @ [x]"] by (simp add: Set_add_def)
  qed
qed

lemma new_Set_first_occurrences: "new_Set xs = first_occurrences xs"
  by (simp add: new_Set_def foldl_Set_add)

lemma recipientList_spec: "recipientList raw = spec_nonempty_lines raw"
  by (simp add: recipientList_def spec_nonempty_lines_def)

lemma uniqueRecipients_spec: "uniqueRecipients raw = spec_normalize raw"
  by (simp add: uniqueRecipients_def spec_normalize_def new_Set_first_occurrences
      recipientList_spec)

subsection \<open>The paths of handleSubmit\<close>

lemma duplicateInfo_send_outcome [simp]:
  "duplicateInfo (send_outcome st r) = duplicateInfo st"
  by (induction st r rule: send_outcome.induct) (simp_all add: Let_def)

lemma handleSubmit_no_recipients:
  assumes "uniqueRecipients (recipients st) = []"
  shows "handleSubmit fetch st =
    (st\<lparr>error := ''Please enter at least one recipient email address'',
        results := None, duplicateInfo := []\<rparr>, [])"
  using assms by (simp add: handleSubmit_def)

lemma handleSubmit_invalid:
  assumes "uniqueRecipients (recipients st) \<noteq> []"
    and "filter (\<lambda>email. \<not> validateEmail email) (uniqueRecipients (recipients st)) \<noteq> []"
  shows "handleSubmit fetch st =
    (st\<lparr>error := ''Invalid email addresses: ''
           @ join '', '' (filter (\<lambda>email. \<not> validateEmail email) (uniqueRecipients (recipients st))),
        results := None, duplicateInfo := []\<rparr>, [])"
  using assms by (simp add: handleSubmit_def Let_def)

lemma handleSubmit_no_subject:
  assumes "uniqueRecipients (recipients st) \<noteq> []"
    and "filter (\<lambda>email. \<not> validateEmail email) (uniqueRecipients (recipients st)) = []"
    and "trim (subject st) = []"
  shows "handleSubmit fetch st =
    (st\<lparr>error := ''Please enter a subject'', results := None,
        duplicateInfo := duplicate_feedback (recipients st)\<rparr>, [])"
  using assms by (simp add: handleSubmit_def Let_def duplicate_feedback_def)

lemma handleSubmit_no_body:
  assumes "uniqueRecipients (recipients st) \<noteq> []"
    and "filter (\<lambda>email. \<not> validateEmail email) (uniqueRecipients (recipients st)) = []"
    and "trim (subject st) \<noteq> []" and "trim (body st) = []"
  shows "handleSubmit fetch st =
    (st\<lparr>error := ''Please enter a message'', results := None,
        duplicateInfo := duplicate_feedback (recipients st)\<rparr>, [])"
  using assms by (simp add: handleSubmit_def Let_def duplicate_feedback_def)

lemma handleSubmit_sends:
  assumes "uniqueRecipients (recipients st) \<noteq> []"
    and "filter (\<lambda>email. \<not> validateEmail email) (uniqueRecipients (recipients st)) = []"
    and "trim (subject st) \<noteq> []" and "trim (body st) \<noteq> []"
  shows "handleSubmit fetch st =
    ((send_outcome
        (st\<lparr>error := [], results := None,
            duplicateInfo := duplicate_feedback (recipients st), loading := True\<rparr>)
        (fetch (request_of st)))\<lparr>loading := False\<rparr>,
     [request_of st])"
  using assms by (simp add: handleSubmit_def Let_def duplicate_feedback_def request_of_def)


lemma filter_invalid_empty_iff:
  "filter (\<lambda>email. \<not> validateEmail email) xs = [] \<longleftrightarrow> list_all validateEmail xs"
  by (induction xs) auto

lemma uniqueRecipients_empty_iff:
  "uniqueRecipients raw = [] \<longleftrightarrow> recipientList raw = []"
proof -
  have "set (uniqueRecipients raw) = toLowerCase ` set (recipientList raw)"
    by (simp add: uniqueRecipients_def new_Set_first_occurrences)
  then show ?thesis
    by (metis image_is_empty set_empty)
qed

lemma duplicate_feedback_spec:
  "duplicate_feedback raw =
     (if 0 < spec_duplicate_count raw
      then string_of_nat (spec_duplicate_count raw) @ '' duplicate email address removed''
      else [])"
  by (simp add: duplicate_feedback_def spec_duplicate_count_def
      recipientList_spec [symmetric] uniqueRecipients_spec [symmetric])

lemma duplicateInfo_handleSubmit:
  "duplicateInfo (fst (handleSubmit fetch st)) =
     (if list_all validateEmail (uniqueRecipients (recipients st))
      then duplicate_feedback (recipients st) else [])"
proof (cases "uniqueRecipients (recipients st) = []")
  case True
  then have "recipientList (recipients st) = []"
    by (simp add: uniqueRecipients_empty_iff)
  with True show ?thesis
    by (simp add: handleSubmit_no_recipients duplicate_feedback_def)
next
  case ne: False
  show ?thesis
  proof (cases "filter (\<lambda>email. \<not> validateEmail email) (uniqueRecipients (recipients st)) = []")
    case False
    with ne show ?thesis
      by (simp add: handleSubmit_invalid filter_invalid_empty_iff)
  next
    case valid: True
    then have all: "list_all validateEmail (uniqueRecipients (recipients st))"
      by (simp add: filter_invalid_empty_iff)
    show ?thesis
    proof (cases "trim (subject st) = []")
      case True
      with ne valid all show ?thesis by (simp add: handleSubmit_no_subject)
    next
      case subj: False
      show ?thesis
      proof (cases "trim (body st) = []")
        case True
        with ne valid all subj show ?thesis by (simp add: handleSubmit_no_body)
      next
        case False
        with ne valid all subj show ?thesis by (simp add: handleSubmit_sends)
      qed
    qed
  qed
qed

text \<open>
  C1. The normalised recipient list of the handler is the list the specification
  describes: the text split on newlines, each line trimmed, the empty lines dropped, each
  remaining line lower-cased, and the first occurrence of each distinct lower-cased
  address kept in first-seen order. The number of removed duplicates is the number of
  non-empty trimmed lines minus the number of distinct entries, and this is the number
  the handler prints in its duplicate message whenever it prints one. The text of the
  three lines a@b.com, a@B.com and c@d.org gives the list a@b.com, c@d.org and the
  count 1.
\<close>

theorem normalizer_refines_spec:
  "uniqueRecipients raw = spec_normalize raw
   \<and> removedCount raw = spec_duplicate_count raw
   \<and> duplicateInfo (fst (handleSubmit fetch st)) =
       (if list_all validateEmail (spec_normalize (recipients st))
           \<and> 0 < spec_duplicate_count (recipients st)
        then string_of_nat (spec_duplicate_count (recipients st))
             @ '' duplicate email address removed''
        else [])
   \<and> uniqueRecipients ''a@b.com\<newline>a@B.com\<newline>c@d.org'' = [''a@b.com'', ''c@d.org'']
   \<and> removedCount ''a@b.com\<newline>a@B.com\<newline>c@d.org'' = 1"
proof -
  have list: "uniqueRecipients raw = spec_normalize raw"
    by (rule uniqueRecipients_spec)
  have count: "removedCount raw = spec_duplicate_count raw"
    by (simp add: removedCount_def spec_duplicate_count_def recipientList_spec
        uniqueRecipients_spec)
  have shown: "duplicateInfo (fst (handleSubmit fetch st)) =
       (if list_all validateEmail (spec_normalize (recipients st))
           \<and> 0 < spec_duplicate_count (recipients st)
        then string_of_nat (spec_duplicate_count (recipients st))
             @ '' duplicate email address removed''
        else [])"
    by (simp add: duplicateInfo_handleSubmit duplicate_feedback_spec uniqueRecipients_spec)
  have ex1: "uniqueRecipients ''a@b.com\<newline>a@B.com\<newline>c@d.org'' = [''a@b.com'', ''c@d.org'']"
    by code_simp
  have ex2: "removedCount ''a@b.com\<newline>a@B.com\<newline>c@d.org'' = 1"
    by code_simp
  from list count shown ex1 ex2 show ?thesis by blast
qed


subsection \<open>The regular expression of the validator\<close>

lemma matches_Once:
  "matches_anchored ((a, Once) # p) s \<longleftrightarrow>
     (\<exists>c cs. s = c # cs \<and> atom_matches a c \<and> matches_anchored p cs)"
  by (cases s) simp_all

lemma matches_OneOrMore:
  "matches_anchored ((a, OneOrMore) # p) s \<longleftrightarrow>
     (\<exists>u v. s = u @ v \<and> u \<noteq> [] \<and> list_all (atom_matches a) u \<and> matches_anchored p v)"
proof (induction s)
  case Nil
  show ?case by simp
next
  case (Cons c cs)
  show ?case
  proof
    assume m: "matches_anchored ((a, OneOrMore) # p) (c # cs)"
    then have c: "atom_matches a c" by simp
    from m have "matches_anchored ((a, OneOrMore) # p) cs \<or> matches_anchored p cs" by simp
    then show "\<exists>u v. c # cs = u @ v \<and> u \<noteq> [] \<and> list_all (atom_matches a) u \<and> matches_anchored p v"
    proof
      assume "matches_anchored ((a, OneOrMore) # p) cs"
      with Cons.IH obtain u v where "cs = u @ v" "list_all (atom_matches a) u" "matches_anchored p v"
        by blast
      with c have "c # cs = (c # u) @ v \<and> c # u \<noteq> [] \<and> list_all (atom_matches a) (c # u)
          \<and> matches_anchored p v" by simp
      then show ?thesis by blast
    next
      assume "matches_anchored p cs"
      with c have "c # cs = [c] @ cs \<and> [c] \<noteq> [] \<and> list_all (atom_matches a) [c]
          \<and> matches_anchored p cs" by simp
      then show ?thesis by blast
    qed
  next
    assume "\<exists>u v. c # cs = u @ v \<and> u \<noteq> [] \<and> list_all (atom_matches a) u \<and> matches_anchored p v"
    then obtain u v where uv: "c # cs = u @ v" "u \<noteq> []" "list_all (atom_matches a) u"
      "matches_anchored p v" by blast
    then obtain u' where u: "u = c # u'" by (cases u) auto
    with uv have cs: "cs = u' @ v" and c: "atom_matches a c" and u': "list_all (atom_matches a) u'"
      by simp_all
    show "matches_anchored ((a, OneOrMore) # p) (c # cs)"
    proof (cases "u' = []")
      case True
      with cs uv c show ?thesis by simp
    next
      case False
      with cs u' uv(4) Cons.IH have "matches_anchored ((a, OneOrMore) # p) cs" by blast
      with c show ?thesis by simp
    qed
  qed
qed

lemma plain_class:
  "atom_matches (NegatedClass [WhiteSpaceClass, CharItem CHR ''@'']) = spec_plain_char"
  by (rule ext) (simp add: spec_plain_char_def)

lemma matches_email_regex: "matches_anchored email_regex t \<longleftrightarrow> spec_email_shape t"
proof
  assume "matches_anchored email_regex t"
  then obtain l r1 where 1: "t = l @ r1" "l \<noteq> []" "list_all spec_plain_char l"
    "matches_anchored (tl email_regex) r1"
    unfolding email_regex_def by (auto simp: matches_OneOrMore plain_class)
  from 1(4) obtain r2 where 2: "r1 = CHR ''@'' # r2" "matches_anchored (tl (tl email_regex)) r2"
    unfolding email_regex_def by (auto simp: matches_Once)
  from 2(2) obtain d r3 where 3: "r2 = d @ r3" "d \<noteq> []" "list_all spec_plain_char d"
    "matches_anchored (tl (tl (tl email_regex))) r3"
    unfolding email_regex_def by (auto simp: matches_OneOrMore plain_class)
  from 3(4) obtain r4 where 4: "r3 = CHR ''.'' # r4"
    "matches_anchored (tl (tl (tl (tl email_regex)))) r4"
    unfolding email_regex_def by (auto simp: matches_Once)
  from 4(2) have 5: "r4 \<noteq> []" "list_all spec_plain_char r4"
    unfolding email_regex_def by (auto simp: matches_OneOrMore plain_class)
  have "t = l @ ''@'' @ d @ ''.'' @ r4"
    using 1(1) 2(1) 3(1) 4(1) by simp
  with 1(2,3) 3(2,3) 5 show "spec_email_shape t"
    unfolding spec_email_shape_def spec_plain_part_def by blast
next
  assume "spec_email_shape t"
  then obtain l d e where t: "t = l @ ''@'' @ d @ ''.'' @ e"
    and l: "l \<noteq> []" "list_all spec_plain_char l"
    and d: "d \<noteq> []" "list_all spec_plain_char d"
    and e: "e \<noteq> []" "list_all spec_plain_char e"
    unfolding spec_email_shape_def spec_plain_part_def by blast
  have 5: "matches_anchored [(NegatedClass [WhiteSpaceClass, CharItem CHR ''@''], OneOrMore)] e"
    using e by (simp add: matches_OneOrMore plain_class)
  have 4: "matches_anchored (tl (tl (tl email_regex))) (''.'' @ e)"
    unfolding email_regex_def using 5 by simp
  have 3: "matches_anchored (tl (tl email_regex)) (d @ ''.'' @ e)"
    unfolding email_regex_def using 4 d
    by (simp only: list.sel matches_OneOrMore plain_class email_regex_def) blast
  have 2: "matches_anchored (tl email_regex) (''@'' @ d @ ''.'' @ e)"
    using 3 unfolding email_regex_def by simp
  show "matches_anchored email_regex t"
    unfolding t using 2 l
    by (simp only: list.sel matches_OneOrMore plain_class email_regex_def) blast
qed

text \<open>
  C3. The validator accepts a string exactly when the trimmed string is one or more
  characters that are neither white space nor the at sign, then a literal at sign, then
  one or more such characters, a literal dot, and one or more such characters. It
  rejects not-an-email and accepts user@example.com.
\<close>

theorem validateEmail_iff_shape:
  "validateEmail s = spec_email_shape (trim s)
   \<and> \<not> validateEmail ''not-an-email''
   \<and> validateEmail ''user@example.com''"
proof -
  have shape: "validateEmail s = spec_email_shape (trim s)"
    by (simp add: validateEmail_def matches_email_regex)
  have no: "\<not> validateEmail ''not-an-email''" by code_simp
  have yes: "validateEmail ''user@example.com''" by code_simp
  from shape no yes show ?thesis by blast
qed


subsection \<open>Rejected submissions\<close>

lemma join_lists_each:
  "e \<in> set xs \<Longrightarrow> \<exists>u v. join sep xs = u @ e @ v"
proof (induction sep xs rule: join.induct)
  case (1 sep)
  then show ?case by simp
next
  case (2 sep x)
  then have "join sep [x] = [] @ e @ []" by simp
  then show ?case by blast
next
  case (3 sep x y ys)
  show ?case
  proof (cases "e = x")
    case True
    then have "join sep (x # y # ys) = [] @ e @ (sep @ join sep (y # ys))" by simp
    then show ?thesis by blast
  next
    case False
    with 3 obtain u v where "join sep (y # ys) = u @ e @ v" by auto
    then have "join sep (x # y # ys) = (x @ sep @ u) @ e @ v" by simp
    then show ?thesis by blast
  qed
qed

lemma handleSubmit_invalid_all:
  assumes "\<not> list_all validateEmail (uniqueRecipients (recipients st))"
  shows "handleSubmit fetch st =
    (st\<lparr>error := ''Invalid email addresses: ''
           @ join '', '' (filter (\<lambda>email. \<not> validateEmail email) (uniqueRecipients (recipients st))),
        results := None, duplicateInfo := []\<rparr>, [])"
proof -
  from assms have "uniqueRecipients (recipients st) \<noteq> []" by auto
  moreover from assms
  have "filter (\<lambda>email. \<not> validateEmail email) (uniqueRecipients (recipients st)) \<noteq> []"
    by (simp add: filter_invalid_empty_iff)
  ultimately show ?thesis by (rule handleSubmit_invalid)
qed

text \<open>
  C4. A submission whose normalised recipient list holds an address that fails the
  validator is rejected as a whole: the error message is the invalid-address message
  and every invalid address of the list occurs in it, no request is sent to the send
  endpoint (so no list of the valid addresses alone either), no report is stored, and
  the three form fields stay as they were.
\<close>

theorem invalid_address_rejects_submission:
  assumes "\<not> list_all validateEmail (uniqueRecipients (recipients st))"
  shows "snd (handleSubmit fetch st) = []
    \<and> error (fst (handleSubmit fetch st)) =
        ''Invalid email addresses: ''
        @ join '', '' (filter (\<lambda>email. \<not> validateEmail email) (uniqueRecipients (recipients st)))
    \<and> (\<forall>e \<in> set (uniqueRecipients (recipients st)).
          \<not> validateEmail e \<longrightarrow> (\<exists>u v. error (fst (handleSubmit fetch st)) = u @ e @ v))
    \<and> results (fst (handleSubmit fetch st)) = None
    \<and> subject (fst (handleSubmit fetch st)) = subject st
    \<and> body (fst (handleSubmit fetch st)) = body st
    \<and> recipients (fst (handleSubmit fetch st)) = recipients st"
proof -
  let ?bad = "filter (\<lambda>email. \<not> validateEmail email) (uniqueRecipients (recipients st))"
  note run = handleSubmit_invalid_all [OF assms, of fetch]
  have listed: "\<exists>u v. error (fst (handleSubmit fetch st)) = u @ e @ v"
    if "e \<in> set (uniqueRecipients (recipients st))" and "\<not> validateEmail e" for e
  proof -
    from that have "e \<in> set ?bad" by simp
    then obtain u v where "join '', '' ?bad = u @ e @ v"
      using join_lists_each by blast
    then have "error (fst (handleSubmit fetch st)) = (''Invalid email addresses: '' @ u) @ e @ v"
      by (simp add: run)
    then show ?thesis by blast
  qed
  show ?thesis using listed by (simp add: run)
qed

theorem invalid_address_rejects_submission_witness:
  "\<not> list_all validateEmail
       (uniqueRecipients (recipients (initial_state\<lparr>subject := ''S'', body := ''B'',
          recipients := ''x@a.com\<newline>bad\<newline>y@a.com\<newline>worse@''\<rparr>)))
   \<and> snd (handleSubmit (\<lambda>request. Rejected OtherValue)
        (initial_state\<lparr>subject := ''S'', body := ''B'',
          recipients := ''x@a.com\<newline>bad\<newline>y@a.com\<newline>worse@''\<rparr>)) = []
   \<and> error (fst (handleSubmit (\<lambda>request. Rejected OtherValue)
        (initial_state\<lparr>subject := ''S'', body := ''B'',
          recipients := ''x@a.com\<newline>bad\<newline>y@a.com\<newline>worse@''\<rparr>)))
       = ''Invalid email addresses: bad, worse@''"
proof -
  let ?st = "initial_state\<lparr>subject := ''S'', body := ''B'',
          recipients := ''x@a.com\<newline>bad\<newline>y@a.com\<newline>worse@''\<rparr>"
  have h: "\<not> list_all validateEmail (uniqueRecipients (recipients ?st))"
    by code_simp
  have bad: "filter (\<lambda>email. \<not> validateEmail email) (uniqueRecipients (recipients ?st))
      = [''bad'', ''worse@'']"
    by code_simp
  from invalid_address_rejects_submission [OF h, of "\<lambda>request. Rejected OtherValue"] h bad
  show ?thesis by simp
qed

text \<open>
  C5. A submission whose normalised recipient list is empty, or whose subject is empty
  after trimming, or whose body is empty after trimming, is blocked: no request is sent
  to the send endpoint, and the error is one non-empty message, the one of the first
  failing check in the order recipients, addresses, subject, body.
\<close>

theorem empty_input_blocks_submission:
  assumes "uniqueRecipients (recipients st) = [] \<or> trim (subject st) = [] \<or> trim (body st) = []"
  shows "snd (handleSubmit fetch st) = []
    \<and> error (fst (handleSubmit fetch st)) =
        (if uniqueRecipients (recipients st) = []
         then ''Please enter at least one recipient email address''
         else if \<not> list_all validateEmail (uniqueRecipients (recipients st))
         then ''Invalid email addresses: ''
              @ join '', '' (filter (\<lambda>email. \<not> validateEmail email)
                  (uniqueRecipients (recipients st)))
         else if trim (subject st) = [] then ''Please enter a subject''
         else ''Please enter a message'')
    \<and> error (fst (handleSubmit fetch st)) \<noteq> []
    \<and> results (fst (handleSubmit fetch st)) = None"
proof (cases "uniqueRecipients (recipients st) = []")
  case True
  then show ?thesis by (simp add: handleSubmit_no_recipients)
next
  case ne: False
  show ?thesis
  proof (cases "list_all validateEmail (uniqueRecipients (recipients st))")
    case False
    with ne show ?thesis by (simp add: handleSubmit_invalid_all)
  next
    case True
    then have valid: "filter (\<lambda>email. \<not> validateEmail email) (uniqueRecipients (recipients st)) = []"
      by (simp add: filter_invalid_empty_iff)
    show ?thesis
    proof (cases "trim (subject st) = []")
      case True
      with ne valid \<open>list_all validateEmail (uniqueRecipients (recipients st))\<close>
      show ?thesis by (simp add: handleSubmit_no_subject)
    next
      case False
      with assms ne have "trim (body st) = []" by simp
      with ne valid False \<open>list_all validateEmail (uniqueRecipients (recipients st))\<close>
      show ?thesis by (simp add: handleSubmit_no_body)
    qed
  qed
qed

theorem empty_input_blocks_submission_witness:
  "(uniqueRecipients (recipients (initial_state\<lparr>subject := ''S'', body := ''   '',
        recipients := ''x@a.com''\<rparr>)) = []
    \<or> trim (subject (initial_state\<lparr>subject := ''S'', body := ''   '',
        recipients := ''x@a.com''\<rparr>)) = []
    \<or> trim (body (initial_state\<lparr>subject := ''S'', body := ''   '',
        recipients := ''x@a.com''\<rparr>)) = [])
   \<and> snd (handleSubmit (\<lambda>request. Rejected OtherValue)
        (initial_state\<lparr>subject := ''S'', body := ''   '', recipients := ''x@a.com''\<rparr>)) = []
   \<and> error (fst (handleSubmit (\<lambda>request. Rejected OtherValue)
        (initial_state\<lparr>subject := ''S'', body := ''   '', recipients := ''x@a.com''\<rparr>)))
       = ''Please enter a message''"
proof -
  let ?st = "initial_state\<lparr>subject := ''S'', body := ''   '', recipients := ''x@a.com''\<rparr>"
  have b: "trim (body ?st) = []" by code_simp
  have s: "trim (subject ?st) \<noteq> []" by code_simp
  have u: "uniqueRecipients (recipients ?st) = [''x@a.com'']" by code_simp
  have v: "validateEmail ''x@a.com''" by code_simp
  have h: "uniqueRecipients (recipients ?st) = [] \<or> trim (subject ?st) = [] \<or> trim (body ?st) = []"
    using b by blast
  from empty_input_blocks_submission [OF h, of "\<lambda>request. Rejected OtherValue"] b s u v h
  show ?thesis by simp
qed

text \<open>
  C10. When the normalised recipient list holds an invalid address, the handler returns
  with the invalid-address error before it computes the duplicate message, so the
  duplicate message, reset at the start of the submission, stays empty, also when
  duplicates were removed; a duplicate message is shown only for a submission whose
  addresses all pass the validator. For the text of the two lines bad and BAD one
  duplicate is removed and the message is empty.
\<close>

theorem invalid_address_hides_duplicate_feedback:
  "(\<not> list_all validateEmail (uniqueRecipients (recipients st)) \<longrightarrow>
      duplicateInfo (fst (handleSubmit fetch st)) = []
      \<and> error (fst (handleSubmit fetch st)) =
          ''Invalid email addresses: ''
          @ join '', '' (filter (\<lambda>email. \<not> validateEmail email)
              (uniqueRecipients (recipients st))))
   \<and> (duplicateInfo (fst (handleSubmit fetch st)) \<noteq> [] \<longrightarrow>
        list_all validateEmail (uniqueRecipients (recipients st))
        \<and> 0 < removedCount (recipients st))
   \<and> removedCount ''bad\<newline>BAD'' = 1
   \<and> duplicateInfo (fst (handleSubmit fetch
        (st\<lparr>recipients := ''bad\<newline>BAD'', duplicateInfo := ''1 duplicate email address removed''\<rparr>))) = []"
proof -
  have a: "duplicateInfo (fst (handleSubmit fetch st)) = []
      \<and> error (fst (handleSubmit fetch st)) =
          ''Invalid email addresses: ''
          @ join '', '' (filter (\<lambda>email. \<not> validateEmail email)
              (uniqueRecipients (recipients st)))"
    if "\<not> list_all validateEmail (uniqueRecipients (recipients st))"
    using that by (simp add: handleSubmit_invalid_all)
  have b: "list_all validateEmail (uniqueRecipients (recipients st))
        \<and> 0 < removedCount (recipients st)"
    if "duplicateInfo (fst (handleSubmit fetch st)) \<noteq> []"
    using that
    by (simp add: duplicateInfo_handleSubmit duplicate_feedback_def removedCount_def
        split: if_splits)
  have c: "removedCount ''bad\<newline>BAD'' = 1" by code_simp
  have u: "uniqueRecipients ''bad\<newline>BAD'' = [''bad'']" by code_simp
  have v: "\<not> validateEmail ''bad''" by code_simp
  have d: "duplicateInfo (fst (handleSubmit fetch
        (st\<lparr>recipients := ''bad\<newline>BAD'', duplicateInfo := ''1 duplicate email address removed''\<rparr>))) = []"
    using u v by (simp add: duplicateInfo_handleSubmit)
  from a b c d show ?thesis by blast
qed

theorem invalid_address_hides_duplicate_feedback_witness:
  "\<not> list_all validateEmail (uniqueRecipients (recipients
       (initial_state\<lparr>subject := ''S'', body := ''B'', recipients := ''x@a.com\<newline>X@A.com\<newline>bad''\<rparr>)))
   \<and> removedCount ''x@a.com\<newline>X@A.com\<newline>bad'' = 1
   \<and> duplicateInfo (fst (handleSubmit (\<lambda>request. Rejected OtherValue)
       (initial_state\<lparr>subject := ''S'', body := ''B'', recipients := ''x@a.com\<newline>X@A.com\<newline>bad''\<rparr>))) = []
   \<and> duplicateInfo (fst (handleSubmit (\<lambda>request. Rejected OtherValue)
       (initial_state\<lparr>subject := ''S'', body := ''B'', recipients := ''x@a.com\<newline>X@A.com''\<rparr>)))
      = ''1 duplicate email address removed''
   \<and> list_all validateEmail (uniqueRecipients (recipients
       (initial_state\<lparr>subject := ''S'', body := ''B'', recipients := ''x@a.com\<newline>X@A.com''\<rparr>)))"
proof -
  let ?bad = "initial_state\<lparr>subject := ''S'', body := ''B'', recipients := ''x@a.com\<newline>X@A.com\<newline>bad''\<rparr>"
  let ?good = "initial_state\<lparr>subject := ''S'', body := ''B'', recipients := ''x@a.com\<newline>X@A.com''\<rparr>"
  have h: "\<not> list_all validateEmail (uniqueRecipients (recipients ?bad))" by code_simp
  have c: "removedCount ''x@a.com\<newline>X@A.com\<newline>bad'' = 1" by code_simp
  have g: "duplicateInfo (fst (handleSubmit (\<lambda>request. Rejected OtherValue) ?good))
      = ''1 duplicate email address removed''" by code_simp
  from invalid_address_hides_duplicate_feedback [of ?bad "\<lambda>request. Rejected OtherValue"] h
  have 1: "duplicateInfo (fst (handleSubmit (\<lambda>request. Rejected OtherValue) ?bad)) = []"
    by blast
  from invalid_address_hides_duplicate_feedback [of ?good "\<lambda>request. Rejected OtherValue"] g
  have 2: "list_all validateEmail (uniqueRecipients (recipients ?good))"
    by simp
  from h c g 1 2 show ?thesis by blast
qed


subsection \<open>After the send request\<close>

lemma handleSubmit_sent_iff:
  "snd (handleSubmit fetch st) \<noteq> [] \<longleftrightarrow>
     uniqueRecipients (recipients st) \<noteq> []
     \<and> list_all validateEmail (uniqueRecipients (recipients st))
     \<and> trim (subject st) \<noteq> [] \<and> trim (body st) \<noteq> []"
proof (cases "uniqueRecipients (recipients st) = []")
  case True
  then show ?thesis by (simp add: handleSubmit_no_recipients)
next
  case ne: False
  show ?thesis
  proof (cases "list_all validateEmail (uniqueRecipients (recipients st))")
    case False
    then show ?thesis by (simp add: handleSubmit_invalid_all)
  next
    case all: True
    then have valid: "filter (\<lambda>email. \<not> validateEmail email) (uniqueRecipients (recipients st)) = []"
      by (simp add: filter_invalid_empty_iff)
    show ?thesis
    proof (cases "trim (subject st) = []")
      case True
      with ne valid show ?thesis by (simp add: handleSubmit_no_subject)
    next
      case subj: False
      show ?thesis
      proof (cases "trim (body st) = []")
        case True
        with ne valid subj show ?thesis by (simp add: handleSubmit_no_body)
      next
        case False
        with ne valid subj all show ?thesis by (simp add: handleSubmit_sends)
      qed
    qed
  qed
qed

lemma handleSubmit_sent:
  assumes "snd (handleSubmit fetch st) \<noteq> []"
  shows "handleSubmit fetch st =
    ((send_outcome
        (st\<lparr>error := [], results := None,
            duplicateInfo := duplicate_feedback (recipients st), loading := True\<rparr>)
        (fetch (request_of st)))\<lparr>loading := False\<rparr>,
     [request_of st])"
  using assms by (simp add: handleSubmit_sent_iff handleSubmit_sends filter_invalid_empty_iff)

lemma send_outcome_report:
  "send_outcome st0 (Resolved (Ok (Resolved data))) =
     (if successful data = total data
      then st0\<lparr>results := Some data, subject := [], body := [], recipients := []\<rparr>
      else st0\<lparr>results := Some data\<rparr>)"
  by (simp add: Let_def)

lemma send_outcome_no_report:
  assumes "\<forall>data. r \<noteq> Resolved (Ok (Resolved data))"
  shows "subject (send_outcome st0 r) = subject st0 \<and> body (send_outcome st0 r) = body st0
    \<and> recipients (send_outcome st0 r) = recipients st0 \<and> results (send_outcome st0 r) = results st0"
  using assms by (induction st0 r rule: send_outcome.induct) simp_all

lemma trim_Nil [simp]: "trim [] = []"
  by (simp add: trim_def)

text \<open>
  C6. When the send request was issued and came back with a report, the report is
  stored, and the subject, body and recipients fields are all empty afterwards exactly
  when successful equals total; with any other report the three fields are as before.
  When the request failed as a whole (a rejected request, a response that is not ok, or
  a body that cannot be read), the three fields are as before and no report is stored.
\<close>

theorem fields_cleared_iff_full_success:
  assumes "snd (handleSubmit fetch st) \<noteq> []"
  shows "(fetch (request_of st) = Resolved (Ok (Resolved data)) \<longrightarrow>
        results (fst (handleSubmit fetch st)) = Some data
        \<and> ((subject (fst (handleSubmit fetch st)) = []
             \<and> body (fst (handleSubmit fetch st)) = []
             \<and> recipients (fst (handleSubmit fetch st)) = [])
            \<longleftrightarrow> successful data = total data)
        \<and> (successful data \<noteq> total data \<longrightarrow>
             subject (fst (handleSubmit fetch st)) = subject st
             \<and> body (fst (handleSubmit fetch st)) = body st
             \<and> recipients (fst (handleSubmit fetch st)) = recipients st))
    \<and> ((\<forall>report. fetch (request_of st) \<noteq> Resolved (Ok (Resolved report))) \<longrightarrow>
         subject (fst (handleSubmit fetch st)) = subject st
         \<and> body (fst (handleSubmit fetch st)) = body st
         \<and> recipients (fst (handleSubmit fetch st)) = recipients st
         \<and> results (fst (handleSubmit fetch st)) = None)"
proof -
  note run = handleSubmit_sent [OF assms]
  from assms have "trim (subject st) \<noteq> []" by (simp add: handleSubmit_sent_iff)
  then have subj: "subject st \<noteq> []" by auto
  have report: "results (fst (handleSubmit fetch st)) = Some data
        \<and> ((subject (fst (handleSubmit fetch st)) = []
             \<and> body (fst (handleSubmit fetch st)) = []
             \<and> recipients (fst (handleSubmit fetch st)) = [])
            \<longleftrightarrow> successful data = total data)
        \<and> (successful data \<noteq> total data \<longrightarrow>
             subject (fst (handleSubmit fetch st)) = subject st
             \<and> body (fst (handleSubmit fetch st)) = body st
             \<and> recipients (fst (handleSubmit fetch st)) = recipients st)"
    if "fetch (request_of st) = Resolved (Ok (Resolved data))"
    using that subj by (simp add: run send_outcome_report del: send_outcome.simps)
  have failed: "subject (fst (handleSubmit fetch st)) = subject st
         \<and> body (fst (handleSubmit fetch st)) = body st
         \<and> recipients (fst (handleSubmit fetch st)) = recipients st
         \<and> results (fst (handleSubmit fetch st)) = None"
    if "\<forall>report. fetch (request_of st) \<noteq> Resolved (Ok (Resolved report))"
    using send_outcome_no_report [OF that] by (simp add: run)
  from report failed show ?thesis by blast
qed

theorem fields_cleared_iff_full_success_witness:
  "snd (handleSubmit (\<lambda>request. Resolved (Ok (Resolved
          \<lparr>total = 2, successful = 1, failed = 1, result_list = []\<rparr>)))
        (initial_state\<lparr>subject := ''S'', body := ''B'', recipients := ''x@a.com\<newline>y@a.com''\<rparr>)) \<noteq> []
   \<and> subject (fst (handleSubmit (\<lambda>request. Resolved (Ok (Resolved
          \<lparr>total = 2, successful = 1, failed = 1, result_list = []\<rparr>)))
        (initial_state\<lparr>subject := ''S'', body := ''B'', recipients := ''x@a.com\<newline>y@a.com''\<rparr>))) = ''S''
   \<and> recipients (fst (handleSubmit (\<lambda>request. Resolved (Ok (Resolved
          \<lparr>total = 2, successful = 1, failed = 1, result_list = []\<rparr>)))
        (initial_state\<lparr>subject := ''S'', body := ''B'', recipients := ''x@a.com\<newline>y@a.com''\<rparr>)))
       = ''x@a.com\<newline>y@a.com''
   \<and> snd (handleSubmit (\<lambda>request. Resolved (Ok (Resolved
          \<lparr>total = 2, successful = 2, failed = 0, result_list = []\<rparr>)))
        (initial_state\<lparr>subject := ''S'', body := ''B'', recipients := ''x@a.com\<newline>y@a.com''\<rparr>)) \<noteq> []
   \<and> subject (fst (handleSubmit (\<lambda>request. Resolved (Ok (Resolved
          \<lparr>total = 2, successful = 2, failed = 0, result_list = []\<rparr>)))
        (initial_state\<lparr>subject := ''S'', body := ''B'', recipients := ''x@a.com\<newline>y@a.com''\<rparr>))) = []
   \<and> snd (handleSubmit (\<lambda>request. Resolved (NotOk (Resolved (Some ''quota''))))
        (initial_state\<lparr>subject := ''S'', body := ''B'', recipients := ''x@a.com\<newline>y@a.com''\<rparr>)) \<noteq> []
   \<and> subject (fst (handleSubmit (\<lambda>request. Resolved (NotOk (Resolved (Some ''quota''))))
        (initial_state\<lparr>subject := ''S'', body := ''B'', recipients := ''x@a.com\<newline>y@a.com''\<rparr>))) = ''S''"
proof -
  let ?st = "initial_state\<lparr>subject := ''S'', body := ''B'', recipients := ''x@a.com\<newline>y@a.com''\<rparr>"
  let ?part = "\<lparr>total = 2, successful = 1, failed = 1, result_list = []\<rparr>"
  let ?full = "\<lparr>total = 2, successful = 2, failed = 0, result_list = []\<rparr>"
  let ?f1 = "\<lambda>request :: send_request. (Resolved (Ok (Resolved ?part)) :: EmailResponse response awaited)"
  let ?f2 = "\<lambda>request :: send_request. (Resolved (Ok (Resolved ?full)) :: EmailResponse response awaited)"
  let ?f3 = "\<lambda>request :: send_request. (Resolved (NotOk (Resolved (Some ''quota''))) :: EmailResponse response awaited)"
  have h1: "snd (handleSubmit ?f1 ?st) \<noteq> []" by code_simp
  have h2: "snd (handleSubmit ?f2 ?st) \<noteq> []" by code_simp
  have h3: "snd (handleSubmit ?f3 ?st) \<noteq> []" by code_simp
  have s: "subject ?st = ''S''" "recipients ?st = ''x@a.com\<newline>y@a.com''"
    by (simp_all add: initial_state_def)
  from fields_cleared_iff_full_success [OF h1, of ?part] s
  have 1: "subject (fst (handleSubmit ?f1 ?st)) = ''S''
      \<and> recipients (fst (handleSubmit ?f1 ?st)) = ''x@a.com\<newline>y@a.com''"
    by simp
  from fields_cleared_iff_full_success [OF h2, of ?full]
  have 2: "subject (fst (handleSubmit ?f2 ?st)) = []"
    by simp
  from fields_cleared_iff_full_success [OF h3, of ?full] s
  have 3: "subject (fst (handleSubmit ?f3 ?st)) = ''S''"
    by simp
  from h1 h2 h3 1 2 3 show ?thesis by blast
qed

subsection \<open>Spreadsheet upload\<close>

lemma endsWith_iff: "endsWith s suf \<longleftrightarrow> (\<exists>stem. s = stem @ suf)"
proof
  assume "endsWith s suf"
  then have "s = take (length s - length suf) s @ suf"
    by (metis append_take_drop_id endsWith_def)
  then show "\<exists>stem. s = stem @ suf" by blast
next
  assume "\<exists>stem. s = stem @ suf"
  then show "endsWith s suf" by (auto simp: endsWith_def)
qed

text \<open>
  C7. A selected file is sent to the upload endpoint exactly when its name ends in
  .xlsx or in .xls. For any other name nothing is sent, and the state is the one before
  with the error message that asks for an Excel file.
\<close>

theorem upload_only_spreadsheet_names:
  "(snd (handleFileUpload fetch (Some file) st) \<noteq> []
      \<longleftrightarrow> (\<exists>stem. name file = stem @ ''.xlsx'' \<or> name file = stem @ ''.xls''))
   \<and> (\<not> (\<exists>stem. name file = stem @ ''.xlsx'' \<or> name file = stem @ ''.xls'') \<longrightarrow>
        handleFileUpload fetch (Some file) st =
          (st\<lparr>error := ''Please upload an Excel file (.xlsx or .xls)''\<rparr>, []))
   \<and> ((\<exists>stem. name file = stem @ ''.xlsx'' \<or> name file = stem @ ''.xls'') \<longrightarrow>
        snd (handleFileUpload fetch (Some file) st) = [file])"
proof -
  have ext: "(\<exists>stem. name file = stem @ ''.xlsx'' \<or> name file = stem @ ''.xls'')
      \<longleftrightarrow> endsWith (name file) ''.xlsx'' \<or> endsWith (name file) ''.xls''"
    unfolding endsWith_iff by blast
  show ?thesis
    unfolding ext by (simp add: handleFileUpload_def Let_def)
qed

theorem upload_only_spreadsheet_names_witness:
  "\<not> (\<exists>stem. name \<lparr>name = ''list.csv'', content = ''a@b.c''\<rparr> = stem @ ''.xlsx''
          \<or> name \<lparr>name = ''list.csv'', content = ''a@b.c''\<rparr> = stem @ ''.xls'')
   \<and> handleFileUpload (\<lambda>file. Resolved (Ok (Resolved [''a@b.c''])))
        (Some \<lparr>name = ''list.csv'', content = ''a@b.c''\<rparr>) initial_state
      = (initial_state\<lparr>error := ''Please upload an Excel file (.xlsx or .xls)''\<rparr>, [])
   \<and> (\<exists>stem. name \<lparr>name = ''list.xls'', content = ''a@b.c''\<rparr> = stem @ ''.xlsx''
          \<or> name \<lparr>name = ''list.xls'', content = ''a@b.c''\<rparr> = stem @ ''.xls'')
   \<and> snd (handleFileUpload (\<lambda>file. Resolved (Ok (Resolved [''a@b.c''])))
        (Some \<lparr>name = ''list.xls'', content = ''a@b.c''\<rparr>) initial_state)
      = [\<lparr>name = ''list.xls'', content = ''a@b.c''\<rparr>]"
proof -
  let ?csv = "\<lparr>name = ''list.csv'', content = ''a@b.c''\<rparr>"
  let ?xls = "\<lparr>name = ''list.xls'', content = ''a@b.c''\<rparr>"
  let ?f = "\<lambda>file :: File. (Resolved (Ok (Resolved [''a@b.c''])) :: string list response awaited)"
  have no: "\<not> (\<exists>stem. name ?csv = stem @ ''.xlsx'' \<or> name ?csv = stem @ ''.xls'')"
  proof -
    have "\<not> endsWith ''list.csv'' ''.xlsx''" "\<not> endsWith ''list.csv'' ''.xls''"
      by code_simp+
    then show ?thesis by (simp add: endsWith_iff)
  qed
  have yes: "\<exists>stem. name ?xls = stem @ ''.xlsx'' \<or> name ?xls = stem @ ''.xls''"
  proof -
    have "name ?xls = ''list'' @ ''.xls''" by simp
    then show ?thesis by blast
  qed
  from upload_only_spreadsheet_names [of ?f ?csv initial_state] no
  have 1: "handleFileUpload ?f (Some ?csv) initial_state
      = (initial_state\<lparr>error := ''Please upload an Excel file (.xlsx or .xls)''\<rparr>, [])"
    by blast
  from upload_only_spreadsheet_names [of ?f ?xls initial_state] yes
  have 2: "snd (handleFileUpload ?f (Some ?xls) initial_state) = [?xls]"
    by blast
  from no yes 1 2 show ?thesis by blast
qed


subsection \<open>Trimming, lower-casing and splitting\<close>

lemma of_char_lowerChar:
  "(of_char (lowerChar c) :: nat) = (if isUpper c then of_char c + 32 else of_char c)"
  by (simp add: lowerChar_def isUpper_def Let_def)

lemma isUpper_lowerChar [simp]: "\<not> isUpper (lowerChar c)"
proof -
  have "isUpper d \<longleftrightarrow> (65 \<le> (of_char d :: nat) \<and> (of_char d :: nat) \<le> 90)
      \<or> (192 \<le> (of_char d :: nat) \<and> (of_char d :: nat) \<le> 222 \<and> (of_char d :: nat) \<noteq> 215)" for d
    by (simp add: isUpper_def Let_def)
  from this [of "lowerChar c"] this [of c] show ?thesis
    by (simp add: of_char_lowerChar split: if_splits)
qed

lemma lowerChar_idem [simp]: "lowerChar (lowerChar c) = lowerChar c"
  using isUpper_lowerChar [of c] by (simp add: lowerChar_def [of "lowerChar c"])

lemma lowerChar_fixed_iff: "lowerChar c = c \<longleftrightarrow> \<not> isUpper c"
proof
  assume "lowerChar c = c"
  then show "\<not> isUpper c" using isUpper_lowerChar [of c] by simp
next
  assume "\<not> isUpper c"
  then show "lowerChar c = c" by (simp add: lowerChar_def)
qed

lemma isWhiteSpace_lowerChar [simp]: "isWhiteSpace (lowerChar c) = isWhiteSpace c"
proof -
  have "isUpper c \<Longrightarrow> 65 \<le> (of_char c :: nat)"
    by (auto simp: isUpper_def Let_def)
  then show ?thesis
    unfolding isWhiteSpace_def of_char_lowerChar
    by (auto simp: isUpper_def Let_def)
qed

lemma lowerChar_eq_LF [simp]: "lowerChar c = LF \<longleftrightarrow> c = LF"
proof -
  have "lowerChar c = LF \<longleftrightarrow> (of_char (lowerChar c) :: nat) = of_char LF"
    by (simp only: of_char_eq_iff)
  also have "\<dots> \<longleftrightarrow> (of_char c :: nat) = of_char LF"
    unfolding of_char_lowerChar by (auto simp: LF_def isUpper_def Let_def)
  also have "\<dots> \<longleftrightarrow> c = LF"
    by (simp only: of_char_eq_iff)
  finally show ?thesis .
qed

lemma toLowerCase_idem [simp]: "toLowerCase (toLowerCase s) = toLowerCase s"
  by (simp add: toLowerCase_def)

lemma toLowerCase_Nil_iff [simp]: "toLowerCase s = [] \<longleftrightarrow> s = []"
  by (simp add: toLowerCase_def)

lemma LF_in_toLowerCase [simp]: "LF \<in> set (toLowerCase s) \<longleftrightarrow> LF \<in> set s"
proof -
  have "LF = lowerChar c \<longleftrightarrow> c = LF" for c
    by (metis lowerChar_eq_LF)
  then show ?thesis
    by (induction s) (auto simp: toLowerCase_def)
qed

lemma toLowerCase_fixed_iff: "toLowerCase s = s \<longleftrightarrow> list_all (\<lambda>c. \<not> isUpper c) s"
  by (induction s) (auto simp: toLowerCase_def lowerChar_fixed_iff)

lemma trim_toLowerCase: "trim (toLowerCase s) = toLowerCase (trim s)"
proof -
  have ws: "isWhiteSpace \<circ> lowerChar = isWhiteSpace"
    by (rule ext) simp
  have drop: "dropWhile isWhiteSpace (map lowerChar xs) = map lowerChar (dropWhile isWhiteSpace xs)"
    for xs by (simp add: dropWhile_map ws)
  show ?thesis
    by (simp add: trim_def toLowerCase_def drop rev_map)
qed

lemma set_trim: "set (trim s) \<subseteq> set s"
proof -
  have "set (dropWhile isWhiteSpace (rev (dropWhile isWhiteSpace s)))
      \<subseteq> set (rev (dropWhile isWhiteSpace s))"
    by (rule set_dropWhileD [THEN subsetI])
  also have "\<dots> \<subseteq> set s"
    using set_dropWhileD [of _ isWhiteSpace s] by auto
  finally show ?thesis by (simp add: trim_def)
qed

text \<open>A text is its own trim exactly when it has no white space at either end.\<close>

lemma dropWhile_fixed_iff: "dropWhile P xs = xs \<longleftrightarrow> xs = [] \<or> \<not> P (hd xs)"
proof (cases xs)
  case Nil
  then show ?thesis by simp
next
  case (Cons x xs')
  have "length (dropWhile P xs') \<le> length xs'" by (rule length_dropWhile_le)
  then have "dropWhile P xs' \<noteq> x # xs'" by auto
  with Cons show ?thesis by simp
qed

lemma trim_fixed_iff:
  "trim s = s \<longleftrightarrow> s = [] \<or> (\<not> isWhiteSpace (hd s) \<and> \<not> isWhiteSpace (last s))"
proof (cases "s = []")
  case True
  then show ?thesis by simp
next
  case ne: False
  define t where "t = dropWhile isWhiteSpace s"
  define u where "u = dropWhile isWhiteSpace (rev t)"
  have tr: "trim s = rev u" by (simp add: trim_def t_def u_def)
  show ?thesis
  proof
    assume fixed: "trim s = s"
    with tr have u: "u = rev s" by (metis rev_rev_ident)
    have "length s = length u" using u by simp
    also have "\<dots> \<le> length (rev t)" unfolding u_def by (rule length_dropWhile_le)
    finally have "length s \<le> length t" by simp
    moreover have "s = takeWhile isWhiteSpace s @ t" by (simp add: t_def)
    ultimately have "takeWhile isWhiteSpace s = []"
      by (metis add_le_same_cancel2 le_zero_eq length_0_conv length_append)
    then have ts: "t = s" by (simp add: t_def dropWhile_eq_drop)
    then have "dropWhile isWhiteSpace s = s" by (simp add: t_def)
    with ne have h: "\<not> isWhiteSpace (hd s)" by (simp add: dropWhile_fixed_iff)
    from u ts have "dropWhile isWhiteSpace (rev s) = rev s" by (simp add: u_def)
    with ne have "\<not> isWhiteSpace (hd (rev s))" by (simp add: dropWhile_fixed_iff)
    with ne have "\<not> isWhiteSpace (last s)" by (simp add: hd_rev)
    with h show "s = [] \<or> (\<not> isWhiteSpace (hd s) \<and> \<not> isWhiteSpace (last s))" by simp
  next
    assume "s = [] \<or> (\<not> isWhiteSpace (hd s) \<and> \<not> isWhiteSpace (last s))"
    with ne have h: "\<not> isWhiteSpace (hd s)" and l: "\<not> isWhiteSpace (last s)" by simp_all
    from h have 1: "dropWhile isWhiteSpace s = s" by (simp add: dropWhile_fixed_iff)
    from ne l have "\<not> isWhiteSpace (hd (rev s))" by (simp add: hd_rev)
    then have 2: "dropWhile isWhiteSpace (rev s) = rev s" by (simp add: dropWhile_fixed_iff)
    show "trim s = s" by (simp add: trim_def 1 2)
  qed
qed

lemma trim_idem [simp]: "trim (trim s) = trim s"
proof (cases "trim s = []")
  case True
  then show ?thesis by simp
next
  case ne: False
  define t where "t = dropWhile isWhiteSpace s"
  define u where "u = dropWhile isWhiteSpace (rev t)"
  have tr: "trim s = rev u" by (simp add: trim_def t_def u_def)
  with ne have une: "u \<noteq> []" by simp
  have split_t: "rev t = takeWhile isWhiteSpace (rev t) @ u" by (simp add: u_def)
  with une have "rev t \<noteq> []" by (metis append_is_Nil_conv)
  then have tne: "t \<noteq> []" by simp
  from une have "\<not> isWhiteSpace (hd u)" unfolding u_def by (rule hd_dropWhile)
  then have l: "\<not> isWhiteSpace (last (trim s))" using une by (simp add: tr last_rev)
  from split_t have "last (rev t) = last u" using une by (metis last_appendR)
  then have "hd (trim s) = hd t" using une tne by (simp add: tr hd_rev last_rev)
  moreover from tne have "\<not> isWhiteSpace (hd t)" unfolding t_def by (rule hd_dropWhile)
  ultimately have "\<not> isWhiteSpace (hd (trim s))" by simp
  with l show ?thesis by (simp add: trim_fixed_iff)
qed

lemma split_not_Nil [simp]: "split sep s \<noteq> []"
  by (induction s) (auto split: list.splits)

lemma split_pieces_free: "p \<in> set (split sep s) \<Longrightarrow> sep \<notin> set p"
proof (induction s arbitrary: p)
  case Nil
  then show ?case by simp
next
  case (Cons c cs)
  show ?case
  proof (cases "c = sep")
    case True
    with Cons show ?thesis by auto
  next
    case False
    obtain q qs where q: "split sep cs = q # qs"
      by (cases "split sep cs") simp_all
    with Cons.prems False have "p = c # q \<or> p \<in> set qs" by simp
    then show ?thesis
    proof
      assume "p = c # q"
      moreover have "sep \<notin> set q" using Cons.IH [of q] q by simp
      ultimately show ?thesis using False by auto
    next
      assume "p \<in> set qs"
      then show ?thesis using Cons.IH [of p] q by simp
    qed
  qed
qed

lemma split_free: "sep \<notin> set s \<Longrightarrow> split sep s = [s]"
  by (induction s) auto

lemma split_append_sep:
  "sep \<notin> set x \<Longrightarrow> split sep (x @ sep # rest) = x # split sep rest"
  by (induction x) auto

lemma split_join:
  assumes "xs \<noteq> []" and "\<forall>x \<in> set xs. sep \<notin> set x"
  shows "split sep (join [sep] xs) = xs"
  using assms
proof (induction "[sep]" xs rule: join.induct)
  case 1
  then show ?case by simp
next
  case (2 x)
  then show ?case by (simp add: split_free)
next
  case (3 x y ys)
  then show ?case by (simp add: split_append_sep)
qed

subsection \<open>What the normalised list holds\<close>

lemma recipientList_elements:
  assumes "e \<in> set (recipientList raw)"
  shows "e \<noteq> [] \<and> trim e = e \<and> LF \<notin> set e"
proof -
  from assms obtain l where l: "l \<in> set (split LF raw)" and e: "e = trim l" and ne: "e \<noteq> []"
    by (auto simp: recipientList_def)
  from l have "LF \<notin> set l" by (rule split_pieces_free)
  with e have "LF \<notin> set e" using set_trim [of l] by auto
  with e ne show ?thesis by simp
qed

lemma uniqueRecipients_elements:
  assumes "e \<in> set (uniqueRecipients raw)"
  shows "e \<noteq> [] \<and> trim e = e \<and> LF \<notin> set e \<and> toLowerCase e = e"
proof -
  from assms obtain r where r: "r \<in> set (recipientList raw)" and e: "e = toLowerCase r"
    by (auto simp: uniqueRecipients_def new_Set_first_occurrences)
  from recipientList_elements [OF r] e show ?thesis
    by (simp add: trim_toLowerCase)
qed

lemma distinct_uniqueRecipients [simp]: "distinct (uniqueRecipients raw)"
  by (simp add: uniqueRecipients_def new_Set_first_occurrences)

lemma recipientList_join:
  assumes "\<forall>e \<in> set xs. e \<noteq> [] \<and> trim e = e \<and> LF \<notin> set e"
  shows "recipientList (join [LF] xs) = xs"
proof (cases "xs = []")
  case True
  then show ?thesis by (simp add: recipientList_def)
next
  case False
  with assms have "split LF (join [LF] xs) = xs" by (simp add: split_join)
  moreover from assms have "map trim xs = xs" by (simp add: map_idI)
  moreover from assms have "filter (\<lambda>email. email \<noteq> []) xs = xs" by (simp add: filter_id_conv)
  ultimately show ?thesis by (simp add: recipientList_def)
qed

text \<open>
  C8. Normalising is idempotent: the normalised list of a text, joined again with
  newlines and normalised again, is the same list; the second pass removes nothing.
\<close>

theorem normalize_idempotent:
  "uniqueRecipients (join [LF] (uniqueRecipients raw)) = uniqueRecipients raw
   \<and> removedCount (join [LF] (uniqueRecipients raw)) = 0"
proof -
  let ?u = "uniqueRecipients raw"
  have "\<forall>e \<in> set ?u. e \<noteq> [] \<and> trim e = e \<and> LF \<notin> set e"
    using uniqueRecipients_elements by blast
  then have lines: "recipientList (join [LF] ?u) = ?u"
    by (rule recipientList_join)
  have "map toLowerCase ?u = ?u"
    using uniqueRecipients_elements by (simp add: map_idI)
  with lines have again: "uniqueRecipients (join [LF] ?u) = ?u"
    by (simp add: uniqueRecipients_def [of "join [LF] ?u"] new_Set_first_occurrences
        first_occurrences_distinct)
  with lines show ?thesis by (simp add: removedCount_def)
qed

text \<open>
  C9. The recipients of every request sent to the send endpoint are the normalised list
  of the recipients field: a non-empty list of pairwise distinct strings, each
  non-empty, equal to its own lower-casing (it holds no capital letter), equal to its
  own trim (no white space at its first or last position), and accepted by the
  validator, so of the shape local@domain.last.
\<close>

theorem transmitted_recipients_normalized:
  assumes "request \<in> set (snd (handleSubmit fetch st))"
  shows "request_recipients request = uniqueRecipients (recipients st)
    \<and> request_recipients request \<noteq> []
    \<and> distinct (request_recipients request)
    \<and> (\<forall>e \<in> set (request_recipients request).
          e \<noteq> [] \<and> toLowerCase e = e \<and> list_all (\<lambda>c. \<not> isUpper c) e
          \<and> trim e = e \<and> \<not> isWhiteSpace (hd e) \<and> \<not> isWhiteSpace (last e)
          \<and> validateEmail e \<and> spec_email_shape e)"
proof -
  from assms have sent: "snd (handleSubmit fetch st) \<noteq> []" by auto
  from handleSubmit_sent [OF sent] assms have req: "request = request_of st" by simp
  from sent have ne: "uniqueRecipients (recipients st) \<noteq> []"
    and valid: "list_all validateEmail (uniqueRecipients (recipients st))"
    by (simp_all add: handleSubmit_sent_iff)
  have each: "e \<noteq> [] \<and> toLowerCase e = e \<and> list_all (\<lambda>c. \<not> isUpper c) e
          \<and> trim e = e \<and> \<not> isWhiteSpace (hd e) \<and> \<not> isWhiteSpace (last e)
          \<and> validateEmail e \<and> spec_email_shape e"
    if "e \<in> set (uniqueRecipients (recipients st))" for e
  proof -
    from uniqueRecipients_elements [OF that]
    have e: "e \<noteq> []" "trim e = e" "toLowerCase e = e" by simp_all
    from e(1,2) have ends: "\<not> isWhiteSpace (hd e) \<and> \<not> isWhiteSpace (last e)"
      by (simp add: trim_fixed_iff)
    from e(3) have low: "list_all (\<lambda>c. \<not> isUpper c) e"
      by (simp add: toLowerCase_fixed_iff)
    from valid that have v: "validateEmail e" by (simp add: list_all_iff)
    then have "spec_email_shape e"
      using e(2) by (simp add: validateEmail_def matches_email_regex)
    with e ends low v show ?thesis by simp
  qed
  show ?thesis using ne each by (simp add: req request_of_def)
qed

theorem transmitted_recipients_normalized_witness:
  "\<lparr>request_subject = ''S'', request_body = ''B'', request_recipients = [''x@a.com'', ''y@a.com'']\<rparr>
     \<in> set (snd (handleSubmit (\<lambda>request. Rejected OtherValue)
         (initial_state\<lparr>subject := ''S'', body := ''B'',
            recipients := '' X@a.com \<newline>\<newline>y@A.com\<newline>x@A.COM''\<rparr>)))
   \<and> distinct [''x@a.com'', ''y@a.com'']
   \<and> toLowerCase ''x@a.com'' = ''x@a.com'' \<and> toLowerCase ''y@a.com'' = ''y@a.com''
   \<and> trim ''x@a.com'' = ''x@a.com'' \<and> trim ''y@a.com'' = ''y@a.com''
   \<and> validateEmail ''x@a.com'' \<and> validateEmail ''y@a.com''"
proof -
  let ?st = "initial_state\<lparr>subject := ''S'', body := ''B'',
            recipients := '' X@a.com \<newline>\<newline>y@A.com\<newline>x@A.COM''\<rparr>"
  let ?req = "\<lparr>request_subject = ''S'', request_body = ''B'',
     request_recipients = [''x@a.com'', ''y@a.com'']\<rparr>"
  have sent: "snd (handleSubmit (\<lambda>request. Rejected OtherValue) ?st) = [?req]"
    by code_simp
  then have h: "?req \<in> set (snd (handleSubmit (\<lambda>request. Rejected OtherValue) ?st))"
    by simp
  note sent_list = transmitted_recipients_normalized [OF h]
  from sent_list have d: "distinct (request_recipients ?req)" by blast
  from sent_list have e: "\<forall>e \<in> set (request_recipients ?req).
      e \<noteq> [] \<and> toLowerCase e = e \<and> trim e = e \<and> validateEmail e" by blast
  from h d e show ?thesis by simp
qed


subsection \<open>The report of the send orchestrator\<close>

lemma length_send_each [simp]:
  "length (send_each provider subj html rs) = length rs"
  by (induction rs) simp_all

lemma email_send_one [simp]: "email (send_one provider subj html r) = r"
  by (simp add: send_one_def split: delivery.splits)

lemma success_send_one:
  "success (send_one provider subj html r) \<longleftrightarrow> provider r subj html = Delivered"
  by (simp add: send_one_def split: delivery.splits)

lemma emails_send_each [simp]: "map email (send_each provider subj html rs) = rs"
  by (induction rs) simp_all

lemma nth_send_each:
  "i < length rs \<Longrightarrow> send_each provider subj html rs ! i = send_one provider subj html (rs ! i)"
proof (induction rs arbitrary: i)
  case Nil
  then show ?case by simp
next
  case (Cons r rs)
  then show ?case by (cases i) simp_all
qed

lemma send_one_depends_on_own_delivery:
  "provider' r subj html = provider r subj html \<Longrightarrow>
     send_one provider' subj html r = send_one provider subj html r"
  by (simp add: send_one_def)

text \<open>
  C2. The report of the send orchestrator holds one result per recipient, in the order
  of the recipients; total is the number of recipients, successful the number of
  results with success, failed is total minus successful. The result at a position is
  the outcome of the delivery to the recipient at that position alone: a provider that
  differs on the other recipients, for instance by failing on them, gives the same
  result there. For the recipients x@a.com and y@a.com and a provider that delivers to
  the first and fails on the second, the report has total 2, successful 1, failed 1 and
  the two results in that order.
\<close>

theorem send_report_one_result_per_recipient:
  "map email (result_list (send_emails provider request)) = request_recipients request
   \<and> length (result_list (send_emails provider request)) = length (request_recipients request)
   \<and> total (send_emails provider request) = int (length (request_recipients request))
   \<and> successful (send_emails provider request)
       = int (length (filter success (result_list (send_emails provider request))))
   \<and> failed (send_emails provider request)
       = total (send_emails provider request) - successful (send_emails provider request)
   \<and> (\<forall>i < length (request_recipients request).
         result_list (send_emails provider request) ! i
           = send_one provider (request_subject request) (request_body request)
               (request_recipients request ! i)
         \<and> (success (result_list (send_emails provider request) ! i)
              \<longleftrightarrow> provider (request_recipients request ! i) (request_subject request)
                    (request_body request) = Delivered)
         \<and> (\<forall>provider'.
               provider' (request_recipients request ! i) (request_subject request)
                   (request_body request)
                 = provider (request_recipients request ! i) (request_subject request)
                     (request_body request)
               \<longrightarrow> result_list (send_emails provider' request) ! i
                     = result_list (send_emails provider request) ! i))
   \<and> send_emails (\<lambda>to subj html. if to = ''x@a.com'' then Delivered else DeliveryFailed ''rejected'')
        \<lparr>request_subject = ''S'', request_body = ''B'',
         request_recipients = [''x@a.com'', ''y@a.com'']\<rparr>
      = \<lparr>total = 2, successful = 1, failed = 1,
         result_list =
           [\<lparr>email = ''x@a.com'', success = True, message = ''Email sent successfully''\<rparr>,
            \<lparr>email = ''y@a.com'', success = False, message = ''Failed: rejected''\<rparr>]\<rparr>"
proof -
  let ?rs = "request_recipients request"
  let ?s = "request_subject request"
  let ?b = "request_body request"
  have list: "result_list (send_emails p request) = send_each p ?s ?b ?rs" for p
    by (simp add: send_emails_def Let_def)
  have counts: "total (send_emails provider request) = int (length ?rs)"
    "successful (send_emails provider request)
       = int (length (filter success (result_list (send_emails provider request))))"
    "failed (send_emails provider request)
       = total (send_emails provider request) - successful (send_emails provider request)"
    by (simp_all add: send_emails_def Let_def)
  have each: "result_list (send_emails provider request) ! i = send_one provider ?s ?b (?rs ! i)
         \<and> (success (result_list (send_emails provider request) ! i)
              \<longleftrightarrow> provider (?rs ! i) ?s ?b = Delivered)
         \<and> (\<forall>provider'. provider' (?rs ! i) ?s ?b = provider (?rs ! i) ?s ?b
               \<longrightarrow> result_list (send_emails provider' request) ! i
                     = result_list (send_emails provider request) ! i)"
    if "i < length ?rs" for i
  proof -
    have at: "result_list (send_emails p request) ! i = send_one p ?s ?b (?rs ! i)" for p
      using that by (simp add: list nth_send_each)
    have own: "result_list (send_emails provider' request) ! i
        = result_list (send_emails provider request) ! i"
      if "provider' (?rs ! i) ?s ?b = provider (?rs ! i) ?s ?b" for provider'
      unfolding at using that by (rule send_one_depends_on_own_delivery)
    have ok: "success (result_list (send_emails provider request) ! i)
        \<longleftrightarrow> provider (?rs ! i) ?s ?b = Delivered"
      by (simp add: at success_send_one)
    from at [of provider] ok own show ?thesis by blast
  qed
  have example: "send_emails (\<lambda>to subj html. if to = ''x@a.com'' then Delivered else DeliveryFailed ''rejected'')
        \<lparr>request_subject = ''S'', request_body = ''B'',
         request_recipients = [''x@a.com'', ''y@a.com'']\<rparr>
      = \<lparr>total = 2, successful = 1, failed = 1,
         result_list =
           [\<lparr>email = ''x@a.com'', success = True, message = ''Email sent successfully''\<rparr>,
            \<lparr>email = ''y@a.com'', success = False, message = ''Failed: rejected''\<rparr>]\<rparr>"
    by (simp add: send_emails_def send_one_def Let_def)
  have order: "map email (result_list (send_emails provider request)) = ?rs"
    "length (result_list (send_emails provider request)) = length ?rs"
    by (simp_all add: list)
  from each have all: "\<forall>i < length ?rs.
         result_list (send_emails provider request) ! i = send_one provider ?s ?b (?rs ! i)
         \<and> (success (result_list (send_emails provider request) ! i)
              \<longleftrightarrow> provider (?rs ! i) ?s ?b = Delivered)
         \<and> (\<forall>provider'. provider' (?rs ! i) ?s ?b = provider (?rs ! i) ?s ?b
               \<longrightarrow> result_list (send_emails provider' request) ! i
                     = result_list (send_emails provider request) ! i)"
    by (intro allI impI)
  show ?thesis
    by (intro conjI) (rule order counts all example)+
qed

theorem send_report_one_result_per_recipient_witness:
  "(0::nat) < length (request_recipients \<lparr>request_subject = ''S'', request_body = ''B'',
         request_recipients = [''x@a.com'', ''y@a.com'']\<rparr>)
   \<and> result_list (send_emails (\<lambda>to subj html. if to = ''x@a.com'' then Delivered else DeliveryFailed ''rejected'')
        \<lparr>request_subject = ''S'', request_body = ''B'',
         request_recipients = [''x@a.com'', ''y@a.com'']\<rparr>) ! 0
      = \<lparr>email = ''x@a.com'', success = True, message = ''Email sent successfully''\<rparr>
   \<and> result_list (send_emails (\<lambda>to subj html. Delivered)
        \<lparr>request_subject = ''S'', request_body = ''B'',
         request_recipients = [''x@a.com'', ''y@a.com'']\<rparr>) ! 0
      = result_list (send_emails (\<lambda>to subj html. if to = ''x@a.com'' then Delivered else DeliveryFailed ''rejected'')
        \<lparr>request_subject = ''S'', request_body = ''B'',
         request_recipients = [''x@a.com'', ''y@a.com'']\<rparr>) ! 0"
proof -
  let ?req = "\<lparr>request_subject = ''S'', request_body = ''B'',
         request_recipients = [''x@a.com'', ''y@a.com'']\<rparr>"
  let ?p = "\<lambda>(to :: string) (subj :: string) (html :: string).
      if to = ''x@a.com'' then Delivered else DeliveryFailed ''rejected''"
  let ?q = "\<lambda>(to :: string) (subj :: string) (html :: string). Delivered"
  have h: "(0::nat) < length (request_recipients ?req)" by simp
  note report = send_report_one_result_per_recipient [of ?p ?req]
  from report h
  have at0: "result_list (send_emails ?p ?req) ! 0
      = send_one ?p (request_subject ?req) (request_body ?req) (request_recipients ?req ! 0)
      \<and> (\<forall>provider'.
            provider' (request_recipients ?req ! 0) (request_subject ?req) (request_body ?req)
              = ?p (request_recipients ?req ! 0) (request_subject ?req) (request_body ?req)
            \<longrightarrow> result_list (send_emails provider' ?req) ! 0 = result_list (send_emails ?p ?req) ! 0)"
    by blast
  then have 1: "result_list (send_emails ?p ?req) ! 0
      = \<lparr>email = ''x@a.com'', success = True, message = ''Email sent successfully''\<rparr>"
    by (simp add: send_one_def)
  from at0 [THEN conjunct2, THEN spec, of ?q]
  have 2: "result_list (send_emails ?q ?req) ! 0 = result_list (send_emails ?p ?req) ! 0"
    by simp
  from h 1 2 show ?thesis by blast
qed

end
